theory Spec2Isabelle
  imports Main "HOL-Library.AList"
begin

section \<open>Data model of the virtual nodes (virtual\_node.cc)\<close>

text \<open>
  The objects that \<^verbatim>\<open>virtual_node.cc\<close> reaches through shared pointers are
  modelled as values. A session is referred to by its address; its mutable state
  (the abort flag and the weak \<^verbatim>\<open>SessionIO\<close> handle of \<^verbatim>\<open>session.h\<close>) lives in
  a store that the node functions only read. One call of a node function reads one
  store: the flags of a session do not change while the call runs.
\<close>

type_synonym session_ref = nat

text \<open>
  \<^verbatim>\<open>Session::GetSessionIO()\<close> locks the weak handle \<^verbatim>\<open>io_handle_\<close>: the
  result is null (\<open>None\<close>) or a live \<^verbatim>\<open>SessionIO\<close>. The output nodes
  down-cast the handle to \<^verbatim>\<open>ExternalDataMapImpl\<close>, which fails on any other
  implementation of the interface.
\<close>

datatype session_io = ExternalDataMapImpl | OtherSessionIO

record session =
  IsAbort :: bool
  GetSessionIO :: "session_io option"

type_synonym session_store = "session_ref \<Rightarrow> session"

text \<open>\<^verbatim>\<open>std::dynamic_pointer_cast<ExternalDataMapImpl>(session->GetSessionIO())\<close>\<close>

definition cast_ExternalDataMapImpl :: "session_io option \<Rightarrow> session_io option" where
  "cast_ExternalDataMapImpl h = (if h = Some ExternalDataMapImpl then h else None)"

record stream =
  stream_id :: nat
  GetSession :: session_ref

text \<open>
  Modelled from the spec: the declarations of \<^verbatim>\<open>BufferIndexInfo\<close> and
  \<^verbatim>\<open>InheritInfo\<close> are missing. An index info carries its stream, the end-flag
  and placeholder marks and an inherit info; the inherit info carries a depth (an
  integer \<open>\<ge> 0\<close>) and the predecessor index info, null at the top.
\<close>

datatype index_info =
  IndexInfo (GetStream: stream) (IsEndFlag: bool) (IsPlaceholder: bool)
            (GetInheritInfo: inherit_info)
and inherit_info =
  InheritInfo (GetDeepth: nat) (GetInheritFrom: "index_info option")

type_synonym flow_unit_error = string

text \<open>
  A buffer: an identity standing for the payload, the error pointer
  (\<^verbatim>\<open>GetError()\<close>, null when the buffer has no error) and the index info that
  \<^verbatim>\<open>BufferManageView::GetIndexInfo\<close> returns.
\<close>

record buffer =
  buffer_id :: nat
  GetError :: "flow_unit_error option"
  GetIndexInfo :: index_info

definition HasError :: "buffer \<Rightarrow> bool" where
  "HasError b = (GetError b \<noteq> None)"

definition buffer_session :: "buffer \<Rightarrow> session_ref" where
  "buffer_session b = GetSession (GetStream (GetIndexInfo b))"

text \<open>
  An input port is its name and its queue, oldest buffer first:
  \<^verbatim>\<open>Front\<close> reads the head and fails on an empty queue, \<^verbatim>\<open>Pop\<close> removes
  the head.
\<close>

type_synonym port = "string \<times> buffer list"

section \<open>OutputVirtualNode::EraseInvalidData\<close>

text \<open>
  The \<^verbatim>\<open>while (in_queue->Front(&buffer))\<close> loop on one queue: it stops on an empty
  queue and on a head whose session has a \<^verbatim>\<open>SessionIO\<close>, and pops the head
  otherwise.
\<close>

fun erase_invalid_queue :: "session_store \<Rightarrow> buffer list \<Rightarrow> buffer list" where
  "erase_invalid_queue ss [] = []"
| "erase_invalid_queue ss (b # q) =
     (if GetSessionIO (ss (buffer_session b)) \<noteq> None then b # q
      else erase_invalid_queue ss q)"

definition EraseInvalidData :: "session_store \<Rightarrow> port list \<Rightarrow> port list" where
  "EraseInvalidData ss input_ports =
     map (\<lambda>(name, q). (name, erase_invalid_queue ss q)) input_ports"

text \<open>The session of a buffer has released its \<^verbatim>\<open>SessionIO\<close>.\<close>

definition io_released :: "session_store \<Rightarrow> buffer \<Rightarrow> bool" where
  "io_released ss b = (GetSessionIO (ss (buffer_session b)) = None)"

section \<open>OutputVirtualNode::Run\<close>

text \<open>
  Modelled from the spec: the declaration of \<^verbatim>\<open>Status\<close> is missing. A status
  converts to \<open>true\<close> exactly when it is the success code; \<^verbatim>\<open>STATUS_OK\<close> is
  another name of \<^verbatim>\<open>STATUS_SUCCESS\<close>.
\<close>

datatype status =
  STATUS_SUCCESS | STATUS_FAULT | STATUS_NODATA | STATUS_CONTINUE | STATUS_BADCONF
  | STATUS_INVALID

abbreviation STATUS_OK :: status where
  "STATUS_OK \<equiv> STATUS_SUCCESS"

text \<open>
  \<^verbatim>\<open>OutputBufferList\<close> maps a port name to a buffer list; \<^verbatim>\<open>output[name] = l\<close>
  is \<open>AList.update name l output\<close>.
\<close>

type_synonym output_buffer_list = "(string \<times> buffer list) list"

text \<open>The calls a node makes on the \<^verbatim>\<open>SessionIO\<close> of a session, in order.\<close>

datatype io_call =
  PushGraphOutputBuffer session_ref output_buffer_list
  | SetLastError session_ref "flow_unit_error option"

text \<open>
  A \<^verbatim>\<open>MatchStreamData\<close>: its session, its map from port name to buffers (in
  the order the loop of \<^verbatim>\<open>Run\<close> visits it) and the value of
  \<^verbatim>\<open>GetDataCount()\<close>, whose definition is not part of the sources.
\<close>

record match_stream_data =
  GetDataCount :: nat
  GetBufferList :: "(string \<times> buffer list) list"
  GetMatchSession :: session_ref

text \<open>
  The loop over \<^verbatim>\<open>data_list\<close> (lines 196 to 211): the state is
  \<^verbatim>\<open>valid_output\<close> and \<^verbatim>\<open>last_error\<close>.
\<close>

fun collect_valid_output ::
  "buffer list \<Rightarrow> buffer list \<times> flow_unit_error option
     \<Rightarrow> buffer list \<times> flow_unit_error option" where
  "collect_valid_output [] (valid_output, last_error) = (valid_output, last_error)"
| "collect_valid_output (data # data_list) (valid_output, last_error) =
     (if IsEndFlag (GetIndexInfo data)
        then collect_valid_output data_list (valid_output, last_error)
      else if IsPlaceholder (GetIndexInfo data)
        then collect_valid_output data_list (valid_output, last_error)
      else collect_valid_output data_list
             (valid_output @ [data],
              if HasError data then GetError data else last_error))"

text \<open>
  The loop over \<^verbatim>\<open>*stream_data_map\<close> (lines 192 to 213): the state is
  \<^verbatim>\<open>output\<close> and \<^verbatim>\<open>last_error\<close>.
\<close>

fun collect_port_data ::
  "(string \<times> buffer list) list \<Rightarrow> output_buffer_list \<times> flow_unit_error option
     \<Rightarrow> output_buffer_list \<times> flow_unit_error option" where
  "collect_port_data [] (output, last_error) = (output, last_error)"
| "collect_port_data ((port_name, data_list) # rest) (output, last_error) =
     (case collect_valid_output data_list ([], last_error) of
        (valid_output, last_error') \<Rightarrow>
          collect_port_data rest (AList.update port_name valid_output output, last_error'))"

text \<open>The body of the loop over \<^verbatim>\<open>match_stream_data_list\<close> (lines 166 to 216).\<close>

definition deliver_match_stream_data ::
  "session_store \<Rightarrow> match_stream_data \<Rightarrow> io_call list" where
  "deliver_match_stream_data ss m =
     (if GetDataCount m = 0 then []
      else if IsAbort (ss (GetMatchSession m)) then []
      else if cast_ExternalDataMapImpl (GetSessionIO (ss (GetMatchSession m))) = None then []
      else (case collect_port_data (GetBufferList m) ([], None) of
              (output, last_error) \<Rightarrow>
                [PushGraphOutputBuffer (GetMatchSession m) output,
                 SetLastError (GetMatchSession m) last_error]))"

text \<open>
  \<^verbatim>\<open>OutputVirtualNode::Run\<close>. \<^verbatim>\<open>GenInputMatchStreamData\<close> belongs to the
  node base class, which is not part of the sources: it is a parameter that takes the
  input ports left by \<^verbatim>\<open>EraseInvalidData\<close> and returns its status, the
  match-stream-data list and the ports it leaves. The result of \<open>Run\<close> is its
  status, the calls made on session IOs and the input ports.
\<close>

definition OutputVirtualNode_Run ::
  "(port list \<Rightarrow> status \<times> match_stream_data list \<times> port list)
     \<Rightarrow> session_store \<Rightarrow> port list \<Rightarrow> status \<times> io_call list \<times> port list" where
  "OutputVirtualNode_Run GenInputMatchStreamData ss input_ports =
     (case GenInputMatchStreamData (EraseInvalidData ss input_ports) of
        (ret, match_stream_data_list, input_ports') \<Rightarrow>
          if ret \<noteq> STATUS_SUCCESS then (ret, [], input_ports')
          else if match_stream_data_list = [] then (STATUS_SUCCESS, [], input_ports')
          else (STATUS_SUCCESS,
                concat (map (deliver_match_stream_data ss) match_stream_data_list),
                input_ports'))"

text \<open>A buffer that is neither an end flag nor a placeholder.\<close>

definition valid_buffer :: "buffer \<Rightarrow> bool" where
  "valid_buffer b = (\<not> IsEndFlag (GetIndexInfo b) \<and> \<not> IsPlaceholder (GetIndexInfo b))"

text \<open>The error of the last buffer of a list that has one, null when none has.\<close>

definition last_error_of :: "buffer list \<Rightarrow> flow_unit_error option" where
  "last_error_of bs =
     (case rev (filter HasError bs) of [] \<Rightarrow> None | b # _ \<Rightarrow> GetError b)"

text \<open>The buffers of a match stream data that pass the filter, in the order visited.\<close>

definition delivered_buffers :: "match_stream_data \<Rightarrow> buffer list" where
  "delivered_buffers m = concat (map (\<lambda>(name, l). filter valid_buffer l) (GetBufferList m))"

text \<open>A match stream data that reaches the delivery at lines 190 to 215.\<close>

definition reaches_delivery :: "session_store \<Rightarrow> match_stream_data \<Rightarrow> bool" where
  "reaches_delivery ss m =
     (GetDataCount m \<noteq> 0 \<and> \<not> IsAbort (ss (GetMatchSession m))
      \<and> GetSessionIO (ss (GetMatchSession m)) = Some ExternalDataMapImpl)"

text \<open>The error kept after a list of buffers: the last one found, else the one held.\<close>

definition keep_error ::
  "flow_unit_error option \<Rightarrow> buffer list \<Rightarrow> flow_unit_error option" where
  "keep_error err bs = (case last_error_of bs of None \<Rightarrow> err | Some e \<Rightarrow> Some e)"

text \<open>The output buffer list after the ports \<open>ps\<close> have been assigned, port by port.\<close>

definition port_outputs ::
  "(string \<times> buffer list) list \<Rightarrow> output_buffer_list \<Rightarrow> output_buffer_list" where
  "port_outputs ps out = fold (\<lambda>(name, l). AList.update name (filter valid_buffer l)) ps out"

text \<open>A \<^verbatim>\<open>GenInputMatchStreamData\<close> that succeeds with a given list and leaves the ports.\<close>

definition gen_match_stream_data ::
  "match_stream_data list \<Rightarrow> port list \<Rightarrow> status \<times> match_stream_data list \<times> port list" where
  "gen_match_stream_data l ports = (STATUS_SUCCESS, l, ports)"

section \<open>SessionUnmatchCache\<close>

text \<open>
  The declaration of the class is missing, and with it the container types of its
  members. \<^verbatim>\<open>port_streams_map_\<close> maps a port name to the stream map of the port,
  which maps a stream to its buffers in arrival order; \<^verbatim>\<open>port_end_flag_map_\<close>
  maps a port name to its end flag.

  The stream map is indexed by its key (\<^verbatim>\<open>port_streams[stream]\<close>), so it is a keyed
  container: \<^verbatim>\<open>begin()\<close> is the entry that stands first in the order of the keys,
  whatever the order in which the entries were inserted. The order of the keys (of
  the \<^verbatim>\<open>Stream\<close> pointers) is not known from the sources: it is the parameter
  \<open>stream_less\<close> of the functions that insert. A stream map is the list of its
  entries in the order of iteration, \<^verbatim>\<open>begin()\<close> first.

  The order in which the other maps are visited has no bearing on what is proved of
  them; there \<^verbatim>\<open>m[k]\<close> on an absent key adds the entry at the end of the list.
\<close>

type_synonym port_streams = "(stream \<times> buffer list) list"

record SessionUnmatchCache =
  port_streams_map :: "(string \<times> port_streams) list"
  port_end_flag_map :: "(string \<times> bool) list"
  GetLastError :: "flow_unit_error option"

text \<open>The constructor: every port name gets the end flag \<open>false\<close>.\<close>

definition new_SessionUnmatchCache :: "string list \<Rightarrow> SessionUnmatchCache" where
  "new_SessionUnmatchCache port_names =
     \<lparr>port_streams_map = [],
      port_end_flag_map = fold (\<lambda>name m. AList.update name False m) port_names [],
      GetLastError = None\<rparr>"

text \<open>
  The loop at lines 262 to 265: from an index info up \<^verbatim>\<open>GetInheritFrom()\<close> while
  the depth is not 0. The result is \<open>None\<close> when the loop follows a null
  predecessor, where the program dereferences a null pointer.
\<close>

fun cur_level_buffer :: "index_info \<Rightarrow> index_info option" where
  "cur_level_buffer (IndexInfo s e p (InheritInfo d inherit_from)) =
     (if d \<noteq> 0
        then (case inherit_from of None \<Rightarrow> None | Some parent \<Rightarrow> cur_level_buffer parent)
      else Some (IndexInfo s e p (InheritInfo d inherit_from)))"

text \<open>
  The root ancestor as the spec defines it (section 3), apart from the loop above:
  the chain of an index info is the index info itself followed by the chain of its
  \<^verbatim>\<open>InheritFrom\<close>, as far as there is one; the root ancestor is the first index
  info of depth 0 on the chain, and there is none when the chain has no index info of
  depth 0.
\<close>

fun inherit_chain :: "index_info \<Rightarrow> index_info list" where
  "inherit_chain (IndexInfo s e p (InheritInfo d inherit_from)) =
     IndexInfo s e p (InheritInfo d inherit_from)
     # (case inherit_from of None \<Rightarrow> [] | Some parent \<Rightarrow> inherit_chain parent)"

definition root_ancestor :: "index_info \<Rightarrow> index_info option" where
  "root_ancestor i = find (\<lambda>a. GetDeepth (GetInheritInfo a) = 0) (inherit_chain i)"

text \<open>
  \<^verbatim>\<open>port_streams[stream].push_back(buffer)\<close>: the buffer joins the bucket of its
  stream; a stream that has no bucket gets one, in front of the first entry whose
  key is greater.
\<close>

fun push_back_stream ::
  "(stream \<Rightarrow> stream \<Rightarrow> bool) \<Rightarrow> stream \<Rightarrow> buffer \<Rightarrow> port_streams \<Rightarrow> port_streams" where
  "push_back_stream stream_less stream b [] = [(stream, [b])]"
| "push_back_stream stream_less stream b ((k, l) # rest) =
     (if k = stream then (k, l @ [b]) # rest
      else if stream_less stream k then (stream, [b]) # (k, l) # rest
      else (k, l) # push_back_stream stream_less stream b rest)"

text \<open>The value of \<^verbatim>\<open>m[k]\<close> read from a map whose values are lists.\<close>

definition lookup_list :: "('k \<times> 'v list) list \<Rightarrow> 'k \<Rightarrow> 'v list" where
  "lookup_list m k = (case map_of m k of None \<Rightarrow> [] | Some l \<Rightarrow> l)"

text \<open>
  \<^verbatim>\<open>SessionUnmatchCache::CacheBuffer\<close>. Its status is always \<^verbatim>\<open>STATUS_OK\<close>, so
  the result is the cache it leaves, or \<open>None\<close> when the walk to depth 0 fails.
\<close>

definition CacheBuffer ::
  "(stream \<Rightarrow> stream \<Rightarrow> bool) \<Rightarrow> string \<Rightarrow> buffer \<Rightarrow> SessionUnmatchCache
     \<Rightarrow> SessionUnmatchCache option" where
  "CacheBuffer stream_less port_name b c =
     (let c1 = (if HasError b then c\<lparr>GetLastError := GetError b\<rparr> else c);
          buffer_index = GetIndexInfo b;
          port_streams = lookup_list (port_streams_map c1) port_name;
          stream = GetStream buffer_index;
          port_streams' = push_back_stream stream_less stream b port_streams;
          c2 = c1\<lparr>port_streams_map :=
                    AList.update port_name port_streams' (port_streams_map c1)\<rparr>
      in if \<not> IsEndFlag buffer_index then Some c2
         else (case cur_level_buffer buffer_index of
                 None \<Rightarrow> None
               | Some cur \<Rightarrow>
                   Some (if IsEndFlag cur
                         then c2\<lparr>port_end_flag_map :=
                                   AList.update port_name True (port_end_flag_map c2)\<rparr>
                         else c2)))"

text \<open>The loop at lines 292 to 303 over the buffers of the first stream.\<close>

fun valid_data_list :: "buffer list \<Rightarrow> buffer list" where
  "valid_data_list [] = []"
| "valid_data_list (b # l) =
     (if IsEndFlag (GetIndexInfo b) then valid_data_list l
      else if IsPlaceholder (GetIndexInfo b) then valid_data_list l
      else b # valid_data_list l)"

text \<open>
  The loop of \<^verbatim>\<open>PopCache\<close> over \<^verbatim>\<open>port_streams_map_\<close>: it returns the map it
  leaves, the output buffer list and \<^verbatim>\<open>empty_port\<close>.
\<close>

fun pop_ports ::
  "(string \<times> port_streams) list \<Rightarrow> output_buffer_list
     \<Rightarrow> (string \<times> port_streams) list \<times> output_buffer_list \<times> nat" where
  "pop_ports [] output_buffer_list = ([], output_buffer_list, 0)"
| "pop_ports ((port_name, []) # rest) output_buffer_list =
     (case pop_ports rest (AList.update port_name [] output_buffer_list) of
        (rest', out', empty_port) \<Rightarrow> ((port_name, []) # rest', out', Suc empty_port))"
| "pop_ports ((port_name, first_stream_item # others) # rest) output_buffer_list =
     (case pop_ports rest
             (AList.update port_name (valid_data_list (snd first_stream_item))
                output_buffer_list) of
        (rest', out', empty_port) \<Rightarrow> ((port_name, others) # rest', out', empty_port))"

definition PopCache ::
  "SessionUnmatchCache \<Rightarrow> output_buffer_list
     \<Rightarrow> status \<times> SessionUnmatchCache \<times> output_buffer_list" where
  "PopCache c output_buffer_list =
     (case pop_ports (port_streams_map c) output_buffer_list of
        (m', out', empty_port) \<Rightarrow>
          (if empty_port = length (port_streams_map c) then STATUS_NODATA
           else STATUS_CONTINUE,
           c\<lparr>port_streams_map := m'\<rparr>, out'))"

fun AllPortStreamEnd_loop :: "(string \<times> bool) list \<Rightarrow> bool" where
  "AllPortStreamEnd_loop [] = True"
| "AllPortStreamEnd_loop (port_end_flag # rest) =
     (if \<not> snd port_end_flag then False else AllPortStreamEnd_loop rest)"

definition AllPortStreamEnd :: "SessionUnmatchCache \<Rightarrow> bool" where
  "AllPortStreamEnd c = AllPortStreamEnd_loop (port_end_flag_map c)"

text \<open>The end flag of a port, \<open>false\<close> for a port the map does not hold.\<close>

definition port_end_flag :: "SessionUnmatchCache \<Rightarrow> string \<Rightarrow> bool" where
  "port_end_flag c port_name = (map_of (port_end_flag_map c) port_name = Some True)"

text \<open>A buffer on which \<^verbatim>\<open>CacheBuffer\<close> returns: an end flag has a root ancestor.\<close>

definition walk_reaches_top :: "buffer \<Rightarrow> bool" where
  "walk_reaches_top b =
     (IsEndFlag (GetIndexInfo b) \<longrightarrow> root_ancestor (GetIndexInfo b) \<noteq> None)"

text \<open>
  What the parameter \<open>stream_less\<close> has to be: a strict linear order on the stream
  keys.
\<close>

definition key_order :: "(stream \<Rightarrow> stream \<Rightarrow> bool) \<Rightarrow> bool" where
  "key_order stream_less =
     ((\<forall>a b c. stream_less a b \<longrightarrow> stream_less b c \<longrightarrow> stream_less a c)
      \<and> (\<forall>a b. a \<noteq> b \<longrightarrow> stream_less a b \<or> stream_less b a))"

text \<open>
  The invariant of a cache: no port name twice, and every stream map in the order of
  its keys.
\<close>

definition cache_in_key_order ::
  "(stream \<Rightarrow> stream \<Rightarrow> bool) \<Rightarrow> SessionUnmatchCache \<Rightarrow> bool" where
  "cache_in_key_order stream_less c =
     (distinct (map fst (port_streams_map c))
      \<and> (\<forall>(name, ps) \<in> set (port_streams_map c). sorted_wrt stream_less (map fst ps)))"

text \<open>The number of stream buckets a cache holds.\<close>

definition bucket_count :: "(string \<times> port_streams) list \<Rightarrow> nat" where
  "bucket_count m = sum_list (map (\<lambda>(name, ps). length ps) m)"

text \<open>What \<^verbatim>\<open>PopCache\<close> emits for a port with the streams \<open>ps\<close>.\<close>

definition first_bucket_output :: "port_streams \<Rightarrow> buffer list" where
  "first_bucket_output ps =
     (case ps of [] \<Rightarrow> [] | first_stream_item # others \<Rightarrow>
        filter valid_buffer (snd first_stream_item))"

text \<open>The output buffer list after every port of the cache has been assigned.\<close>

definition pop_outputs ::
  "(string \<times> port_streams) list \<Rightarrow> output_buffer_list \<Rightarrow> output_buffer_list" where
  "pop_outputs m out = fold (\<lambda>(name, ps). AList.update name (first_bucket_output ps)) m out"

section \<open>OutputUnmatchVirtualNode::Run\<close>

text \<open>
  The node: its input ports and \<^verbatim>\<open>session_cache_map_\<close>, a map from session
  to cache, in the order in which the second loop of \<^verbatim>\<open>Run\<close> visits it.
\<close>

type_synonym session_cache_map = "(session_ref \<times> SessionUnmatchCache) list"

record OutputUnmatchVirtualNode =
  node_input_ports :: "port list"
  session_cache_map :: session_cache_map

text \<open>
  The loop over the buffers received from one port (lines 350 to 365).
  \<^verbatim>\<open>GetInputNames()\<close> is the parameter \<open>input_names\<close>.
\<close>

fun cache_buffers ::
  "session_store \<Rightarrow> (stream \<Rightarrow> stream \<Rightarrow> bool) \<Rightarrow> string list \<Rightarrow> string \<Rightarrow> buffer list
     \<Rightarrow> session_cache_map \<Rightarrow> session_cache_map option" where
  "cache_buffers ss stream_less input_names port_name [] m = Some m"
| "cache_buffers ss stream_less input_names port_name (b # buffers) m =
     (if IsAbort (ss (buffer_session b))
        then cache_buffers ss stream_less input_names port_name buffers m
      else (case CacheBuffer stream_less port_name b
                   (case map_of m (buffer_session b) of
                      None \<Rightarrow> new_SessionUnmatchCache input_names
                    | Some session_cache \<Rightarrow> session_cache) of
              None \<Rightarrow> None
            | Some session_cache' \<Rightarrow>
                cache_buffers ss stream_less input_names port_name buffers
                  (AList.update (buffer_session b) session_cache' m)))"

text \<open>
  The loop over the input ports (lines 347 to 366). Modelled from the spec: the
  declaration of \<^verbatim>\<open>Port::Recv\<close> is missing; with the timeout \<open>-1\<close> it takes
  every pending buffer of the queue.
\<close>

fun recv_ports ::
  "session_store \<Rightarrow> (stream \<Rightarrow> stream \<Rightarrow> bool) \<Rightarrow> string list \<Rightarrow> port list
     \<Rightarrow> session_cache_map \<Rightarrow> session_cache_map option" where
  "recv_ports ss stream_less input_names [] m = Some m"
| "recv_ports ss stream_less input_names ((port_name, buffers) # rest) m =
     (case cache_buffers ss stream_less input_names port_name buffers m of
        None \<Rightarrow> None
      | Some m' \<Rightarrow> recv_ports ss stream_less input_names rest m')"

text \<open>
  The loop \<^verbatim>\<open>while (cache->PopCache(output_buffer_list) != STATUS_NODATA)\<close> with its
  push (lines 377 to 379): it returns the calls made, the cache and the output buffer
  list it leaves.
\<close>

function pop_all ::
  "session_ref \<Rightarrow> SessionUnmatchCache \<Rightarrow> output_buffer_list
     \<Rightarrow> io_call list \<times> SessionUnmatchCache \<times> output_buffer_list" where
  "pop_all session cache output_buffer_list =
     (case PopCache cache output_buffer_list of
        (ret, cache', out') \<Rightarrow>
          if ret \<noteq> STATUS_NODATA
            then (case pop_all session cache' out' of
                    (calls, cache'', out'') \<Rightarrow>
                      (PushGraphOutputBuffer session out' # calls, cache'', out''))
          else ([], cache', out'))"
  by pat_completeness auto
termination
proof (relation "measure (\<lambda>(session, cache, out). bucket_count (port_streams_map cache))",
    goal_cases)
  case 1
  show ?case by simp
next
  case 2
  have pop: "pop_ports m out = (m', o', e)
      \<Longrightarrow> bucket_count m' + length m = bucket_count m + e \<and> e \<le> length m"
    for m out m' o' e
  proof (induction m arbitrary: out m' o' e)
    case Nil
    then show ?case by (simp add: bucket_count_def)
  next
    case (Cons a m)
    obtain name ps where a: "a = (name, ps)" by (cases a)
    show ?case
    proof (cases ps)
      case Nil
      with Cons.prems a obtain r o'' e' where
        r: "pop_ports m (AList.update name [] out) = (r, o'', e')"
        and m': "m' = (name, []) # r" and e: "e = Suc e'"
        by (auto split: prod.splits)
      from Cons.IH [OF r] show ?thesis
        using m' e a Nil by (simp add: bucket_count_def)
    next
      case (Cons f others)
      with Cons.prems a obtain r o'' where
        r: "pop_ports m (AList.update name (valid_data_list (snd f)) out) = (r, o'', e)"
        and m': "m' = (name, others) # r"
        by (auto split: prod.splits)
      from Cons.IH [OF r] show ?thesis
        using m' a Cons by (simp add: bucket_count_def)
    qed
  qed
  have "bucket_count m' < bucket_count m"
    if "pop_ports m out = (m', o', e)" and "e \<noteq> length m" for m out m' o' e
    using pop [OF that(1)] that(2) by simp
  with 2 show ?case
    by (auto simp: PopCache_def split: prod.splits if_splits)
qed

declare pop_all.simps [simp del]

text \<open>The body of the loop over the sessions up to the test for erasure (lines 370 to 380).\<close>

definition push_session_cache ::
  "session_store \<Rightarrow> session_ref \<Rightarrow> SessionUnmatchCache
     \<Rightarrow> io_call list \<times> SessionUnmatchCache" where
  "push_session_cache ss session cache =
     (if cast_ExternalDataMapImpl (GetSessionIO (ss session)) \<noteq> None
        then (case pop_all session cache [] of
                (calls, cache', out') \<Rightarrow>
                  (SetLastError session (GetLastError cache) # calls, cache'))
      else ([], cache))"

text \<open>The loop over \<^verbatim>\<open>session_cache_map_\<close> (lines 368 to 389).\<close>

fun walk_sessions ::
  "session_store \<Rightarrow> session_cache_map \<Rightarrow> io_call list \<times> session_cache_map" where
  "walk_sessions ss [] = ([], [])"
| "walk_sessions ss ((session, cache) # rest) =
     (case push_session_cache ss session cache of
        (calls, cache') \<Rightarrow>
          (case walk_sessions ss rest of
             (rest_calls, rest') \<Rightarrow>
               (calls @ rest_calls,
                if AllPortStreamEnd cache' \<or> IsAbort (ss session) then rest'
                else (session, cache') # rest')))"

text \<open>
  \<^verbatim>\<open>OutputUnmatchVirtualNode::Run\<close>: the status, the calls made on session IOs
  and the node it leaves; \<open>None\<close> when a \<^verbatim>\<open>CacheBuffer\<close> fails. The order of
  the stream keys is passed on to \<^verbatim>\<open>CacheBuffer\<close>.
\<close>

definition OutputUnmatchVirtualNode_Run ::
  "session_store \<Rightarrow> (stream \<Rightarrow> stream \<Rightarrow> bool) \<Rightarrow> OutputUnmatchVirtualNode
     \<Rightarrow> (status \<times> io_call list \<times> OutputUnmatchVirtualNode) option" where
  "OutputUnmatchVirtualNode_Run ss stream_less node =
     (case recv_ports ss stream_less (map fst (node_input_ports node))
             (node_input_ports node) (session_cache_map node) of
        None \<Rightarrow> None
      | Some m \<Rightarrow>
          (case walk_sessions ss m of
             (calls, m') \<Rightarrow>
               Some (STATUS_SUCCESS, calls,
                     \<lparr>node_input_ports = map (\<lambda>(name, q). (name, [])) (node_input_ports node),
                      session_cache_map = m'\<rparr>)))"

text \<open>
  Modelled from the spec: the definitions of \<^verbatim>\<open>Session\<close> are missing
  (\<^verbatim>\<open>session.h\<close> declares the class). What happens to the sessions between two
  runs of the node: the user releases the \<^verbatim>\<open>SessionIO\<close> of some, after which the
  weak handle (\<^verbatim>\<open>session.h\<close>, line 77) locks to null for good, and
  \<^verbatim>\<open>Abort()\<close> is called on some, which sets a flag that nothing clears. Buffers
  arrive on the input ports.
\<close>

record env_step =
  released :: "session_ref list"
  aborted :: "session_ref list"
  arrived :: "port list"

definition apply_env :: "session_store \<Rightarrow> env_step \<Rightarrow> session_store" where
  "apply_env ss e =
     (\<lambda>r. \<lparr>IsAbort = (IsAbort (ss r) \<or> r \<in> set (aborted e)),
            GetSessionIO = (if r \<in> set (released e) then None else GetSessionIO (ss r))\<rparr>)"

definition arrive :: "port list \<Rightarrow> port list \<Rightarrow> port list" where
  "arrive new ports = map (\<lambda>(name, q). (name, q @ lookup_list new name)) ports"


text \<open>
  A sequence of runs of the node, each after a step of the environment. For every run:
  the store it read, the calls it made and the node it left.
\<close>

fun run_trace ::
  "session_store \<Rightarrow> (stream \<Rightarrow> stream \<Rightarrow> bool) \<Rightarrow> OutputUnmatchVirtualNode \<Rightarrow> env_step list
     \<Rightarrow> (session_store \<times> io_call list \<times> OutputUnmatchVirtualNode) list option" where
  "run_trace ss stream_less node [] = Some []"
| "run_trace ss stream_less node (e # steps) =
     (case OutputUnmatchVirtualNode_Run (apply_env ss e) stream_less
             (node\<lparr>node_input_ports := arrive (arrived e) (node_input_ports node)\<rparr>) of
        None \<Rightarrow> None
      | Some (ret, calls, node') \<Rightarrow>
          (case run_trace (apply_env ss e) stream_less node' steps of
             None \<Rightarrow> None
           | Some results \<Rightarrow> Some ((apply_env ss e, calls, node') # results)))"

text \<open>
  What a run can rely on at entry: no session twice in the cache map, and a cache
  that still holds streams belongs to a session without \<^verbatim>\<open>ExternalDataMapImpl\<close>.
\<close>

definition settled :: "session_store \<Rightarrow> session_cache_map \<Rightarrow> bool" where
  "settled ss m =
     (distinct (map fst m)
      \<and> (\<forall>(s, c) \<in> set m. cast_ExternalDataMapImpl (GetSessionIO (ss s)) \<noteq> None \<longrightarrow>
            (\<forall>(name, ps) \<in> set (port_streams_map c). ps = [])))"



text \<open>The cache map after the first loop of \<^verbatim>\<open>Run\<close>.\<close>

definition routed_cache_map ::
  "session_store \<Rightarrow> (stream \<Rightarrow> stream \<Rightarrow> bool) \<Rightarrow> OutputUnmatchVirtualNode
     \<Rightarrow> session_cache_map option" where
  "routed_cache_map ss stream_less node =
     recv_ports ss stream_less (map fst (node_input_ports node)) (node_input_ports node)
       (session_cache_map node)"

section \<open>Example values\<close>

definition live_session :: session where
  "live_session = \<lparr>IsAbort = False, GetSessionIO = Some ExternalDataMapImpl\<rparr>"

definition dead_session :: session where
  "dead_session = \<lparr>IsAbort = False, GetSessionIO = None\<rparr>"

definition aborted_session :: session where
  "aborted_session = \<lparr>IsAbort = True, GetSessionIO = Some ExternalDataMapImpl\<rparr>"

text \<open>Session 1 is live, session 2 is aborted, every other session has no IO.\<close>

definition store0 :: session_store where
  "store0 r = (if r = 1 then live_session else if r = 2 then aborted_session
               else dead_session)"

definition top_index :: "nat \<Rightarrow> session_ref \<Rightarrow> bool \<Rightarrow> bool \<Rightarrow> index_info" where
  "top_index sid r e p =
     IndexInfo \<lparr>stream_id = sid, GetSession = r\<rparr> e p (InheritInfo 0 None)"

definition data_buffer :: "nat \<Rightarrow> session_ref \<Rightarrow> buffer" where
  "data_buffer n r =
     \<lparr>buffer_id = n, GetError = None, GetIndexInfo = top_index 0 r False False\<rparr>"

definition error_buffer :: "nat \<Rightarrow> session_ref \<Rightarrow> string \<Rightarrow> buffer" where
  "error_buffer n r e =
     \<lparr>buffer_id = n, GetError = Some e, GetIndexInfo = top_index 0 r False False\<rparr>"

definition end_buffer :: "nat \<Rightarrow> session_ref \<Rightarrow> buffer" where
  "end_buffer n r =
     \<lparr>buffer_id = n, GetError = None, GetIndexInfo = top_index 0 r True False\<rparr>"

definition placeholder_buffer :: "nat \<Rightarrow> session_ref \<Rightarrow> buffer" where
  "placeholder_buffer n r =
     \<lparr>buffer_id = n, GetError = None, GetIndexInfo = top_index 0 r False True\<rparr>"

definition error_end_buffer :: "nat \<Rightarrow> session_ref \<Rightarrow> string \<Rightarrow> buffer" where
  "error_end_buffer n r e =
     \<lparr>buffer_id = n, GetError = Some e, GetIndexInfo = top_index 0 r True False\<rparr>"

text \<open>A match stream data of the live session 1 with data, errors, an end flag and a placeholder.\<close>

definition mixed_match :: match_stream_data where
  "mixed_match =
     \<lparr>GetDataCount = 3,
      GetBufferList =
        [(''Out_1'', [data_buffer 1 1, error_buffer 2 1 ''e1'', end_buffer 3 1]),
         (''Out_2'', [placeholder_buffer 4 1, error_buffer 5 1 ''e2'', data_buffer 6 1])],
      GetMatchSession = 1\<rparr>"


text \<open>A match stream data of session 1 whose only buffer is an end flag that carries an error.\<close>

definition error_end_match :: match_stream_data where
  "error_end_match =
     \<lparr>GetDataCount = 1,
      GetBufferList = [(''Out_1'', [error_end_buffer 1 1 ''failed''])],
      GetMatchSession = 1\<rparr>"

definition stream0 :: "session_ref \<Rightarrow> stream" where
  "stream0 r = \<lparr>stream_id = 0, GetSession = r\<rparr>"

definition stream1 :: "session_ref \<Rightarrow> stream" where
  "stream1 r = \<lparr>stream_id = 1, GetSession = r\<rparr>"


text \<open>
  An unmatch node with one input port that holds a buffer of the live session 1, a
  top-level end flag of session 4 and a buffer of the aborted session 2, and with a
  cache for session 2 already.
\<close>

definition unmatch_node0 :: OutputUnmatchVirtualNode where
  "unmatch_node0 =
     \<lparr>node_input_ports = [(''In_1'', [data_buffer 1 1, end_buffer 2 4, data_buffer 3 2])],
      session_cache_map = [(2, new_SessionUnmatchCache [''In_1''])]\<rparr>"

definition unmatch_node0_routed :: session_cache_map where
  "unmatch_node0_routed =
     [(2, new_SessionUnmatchCache [''In_1'']),
      (1, \<lparr>port_streams_map = [(''In_1'', [(stream0 1, [data_buffer 1 1])])],
           port_end_flag_map = [(''In_1'', False)], GetLastError = None\<rparr>),
      (4, \<lparr>port_streams_map = [(''In_1'', [(stream0 4, [end_buffer 2 4])])],
           port_end_flag_map = [(''In_1'', True)], GetLastError = None\<rparr>)]"

definition unmatch_node0_after :: OutputUnmatchVirtualNode where
  "unmatch_node0_after =
     \<lparr>node_input_ports = [(''In_1'', [])],
      session_cache_map =
        [(1, \<lparr>port_streams_map = [(''In_1'', [])],
              port_end_flag_map = [(''In_1'', False)], GetLastError = None\<rparr>)]\<rparr>"

text \<open>An order of the stream keys: by stream id, then by session.\<close>

definition stream_order :: "stream \<Rightarrow> stream \<Rightarrow> bool" where
  "stream_order a b =
     (stream_id a < stream_id b
      \<or> (stream_id a = stream_id b \<and> GetSession a < GetSession b))"

definition stream_of :: "nat \<Rightarrow> session_ref \<Rightarrow> stream" where
  "stream_of sid r = \<lparr>stream_id = sid, GetSession = r\<rparr>"

text \<open>A data buffer \<open>n\<close> of the stream \<open>sid\<close> of session \<open>r\<close>.\<close>

definition stream_buffer :: "nat \<Rightarrow> nat \<Rightarrow> session_ref \<Rightarrow> buffer" where
  "stream_buffer n sid r =
     \<lparr>buffer_id = n, GetError = None, GetIndexInfo = top_index sid r False False\<rparr>"



text \<open>
  An end flag of session \<open>r\<close> at depth 2: its predecessor at depth 1 has the end
  flag \<open>mid_end\<close>, the predecessor of that one, at depth 0, has the end flag
  \<open>root_end\<close>.
\<close>

definition depth1_index :: "session_ref \<Rightarrow> bool \<Rightarrow> bool \<Rightarrow> index_info" where
  "depth1_index r mid_end root_end =
     IndexInfo (stream_of 1 r) mid_end False
       (InheritInfo 1 (Some (top_index 0 r root_end False)))"

definition depth2_end_buffer :: "nat \<Rightarrow> session_ref \<Rightarrow> bool \<Rightarrow> bool \<Rightarrow> buffer" where
  "depth2_end_buffer n r mid_end root_end =
     \<lparr>buffer_id = n, GetError = None,
      GetIndexInfo =
        IndexInfo (stream_of 2 r) True False
          (InheritInfo 2 (Some (depth1_index r mid_end root_end)))\<rparr>"










section \<open>Properties of EraseInvalidData\<close>

lemma erase_invalid_queue_dropWhile:
  "erase_invalid_queue ss q = dropWhile (io_released ss) q"
  by (induction q) (simp_all add: io_released_def)

text \<open>
  Claim C7. \<^verbatim>\<open>EraseInvalidData\<close> removes from every input queue exactly the
  longest prefix of buffers whose session has released its \<^verbatim>\<open>SessionIO\<close>: what
  is popped is \<open>takeWhile\<close> of the queue, what stays is \<open>dropWhile\<close>. A queue
  whose head belongs to a session with a live handle is unchanged, and whatever
  stands behind the first such head stays, dead session or not.
\<close>

theorem EraseInvalidData_longest_dead_prefix:
  "EraseInvalidData ss input_ports =
     map (\<lambda>(name, q). (name, dropWhile (io_released ss) q)) input_ports
   \<and> (\<forall>(name, q) \<in> set input_ports.
        takeWhile (io_released ss) q @ erase_invalid_queue ss q = q
        \<and> (\<forall>b rest. q = b # rest \<and> \<not> io_released ss b
              \<longrightarrow> erase_invalid_queue ss q = q)
        \<and> (\<forall>pre b rest. q = pre @ b # rest \<and> (\<forall>x \<in> set pre. io_released ss x)
              \<and> \<not> io_released ss b
              \<longrightarrow> erase_invalid_queue ss q = b # rest))"
proof -
  have eq: "EraseInvalidData ss input_ports =
      map (\<lambda>(name, q). (name, dropWhile (io_released ss) q)) input_ports"
    by (simp add: EraseInvalidData_def erase_invalid_queue_dropWhile)
  have pre: "\<And>pre b rest. (\<forall>x \<in> set pre. io_released ss x) \<Longrightarrow> \<not> io_released ss b
      \<Longrightarrow> dropWhile (io_released ss) (pre @ b # rest) = b # rest"
    by simp
  show ?thesis
    using eq pre by (auto simp: erase_invalid_queue_dropWhile)
qed

theorem EraseInvalidData_longest_dead_prefix_witness:
  "EraseInvalidData store0
     [(''In_1'', [data_buffer 1 3, data_buffer 2 1, data_buffer 3 3]),
      (''In_2'', [data_buffer 4 1, data_buffer 5 3])]
   = [(''In_1'', [data_buffer 2 1, data_buffer 3 3]),
      (''In_2'', [data_buffer 4 1, data_buffer 5 3])]
   \<and> erase_invalid_queue store0 [data_buffer 4 1, data_buffer 5 3]
     = [data_buffer 4 1, data_buffer 5 3]
   \<and> io_released store0 (data_buffer 5 3) \<and> \<not> io_released store0 (data_buffer 4 1)"
proof -
  have live: "\<not> io_released store0 (data_buffer 4 1)"
    by (simp add: io_released_def store0_def data_buffer_def top_index_def
        buffer_session_def live_session_def)
  have live2: "\<not> io_released store0 (data_buffer 2 1)"
    by (simp add: io_released_def store0_def data_buffer_def top_index_def
        buffer_session_def live_session_def)
  have dead: "io_released store0 (data_buffer n 3)" for n
    by (simp add: io_released_def store0_def data_buffer_def top_index_def
        buffer_session_def dead_session_def)
  let ?ports = "[(''In_1'', [data_buffer 1 3, data_buffer 2 1, data_buffer 3 3]),
      (''In_2'', [data_buffer 4 1, data_buffer 5 3])]"
  from EraseInvalidData_longest_dead_prefix [of store0 ?ports]
  show ?thesis using live live2 dead by simp
qed

section \<open>Properties of OutputVirtualNode::Run\<close>

subsection \<open>The loops as filters\<close>

lemma last_error_of_Nil [simp]: "last_error_of [] = None"
  by (simp add: last_error_of_def)

lemma last_error_of_append:
  "last_error_of (xs @ ys) = keep_error (last_error_of xs) ys"
  by (induction ys rule: rev_induct)
     (auto simp: last_error_of_def keep_error_def HasError_def split: list.splits option.splits)

lemma keep_error_Nil [simp]: "keep_error e [] = e"
  by (simp add: keep_error_def)

lemma keep_error_None [simp]: "keep_error None bs = last_error_of bs"
  by (simp add: keep_error_def split: option.splits)

lemma keep_error_append:
  "keep_error e (xs @ ys) = keep_error (keep_error e xs) ys"
  by (cases "last_error_of ys"; cases "last_error_of xs")
     (simp_all add: keep_error_def last_error_of_append)

lemma keep_error_Cons:
  "keep_error e (b # bs) = keep_error (if HasError b then GetError b else e) bs"
proof -
  have "keep_error e [b] = (if HasError b then GetError b else e)"
    by (auto simp: keep_error_def last_error_of_def HasError_def)
  with keep_error_append [of e "[b]" bs] show ?thesis by simp
qed

lemma collect_valid_output_eq:
  "collect_valid_output l (valid_output, err) =
     (valid_output @ filter valid_buffer l, keep_error err (filter valid_buffer l))"
  by (induction l arbitrary: valid_output err)
     (simp_all add: valid_buffer_def keep_error_Cons)

lemma collect_port_data_eq:
  "collect_port_data ps (out, err) =
     (port_outputs ps out,
      keep_error err (concat (map (\<lambda>(name, l). filter valid_buffer l) ps)))"
  by (induction ps arbitrary: out err)
     (auto simp: port_outputs_def collect_valid_output_eq keep_error_append)

lemma alist_update_subset: "set (AList.update k v al) \<subseteq> insert (k, v) (set al)"
  by (induction al) auto

lemma port_outputs_values:
  "(name, bs) \<in> set (port_outputs ps out) \<Longrightarrow>
     (name, bs) \<in> set out \<or> (\<exists>l. (name, l) \<in> set ps \<and> bs = filter valid_buffer l)"
proof (induction ps arbitrary: out)
  case Nil
  then show ?case by (simp add: port_outputs_def)
next
  case (Cons a ps)
  obtain n l where a: "a = (n, l)" by (cases a)
  from Cons.prems a have "(name, bs) \<in> set (port_outputs ps (AList.update n (filter valid_buffer l) out))"
    by (simp add: port_outputs_def)
  from Cons.IH [OF this] show ?case
    using a alist_update_subset [of n "filter valid_buffer l" out] by auto
qed

lemma update_key_set: "fst ` set (AList.update k v al) = insert k (fst ` set al)"
proof -
  have "dom (map_of (AList.update k v al)) = insert k (dom (map_of al))"
    by (simp add: update_conv')
  then show ?thesis by (simp add: dom_map_of_conv_image_fst)
qed



lemma port_outputs_map_of:
  "distinct (map fst ps) \<Longrightarrow> (name, l) \<in> set ps \<Longrightarrow>
     map_of (port_outputs ps out) name = Some (filter valid_buffer l)"
proof (induction ps arbitrary: out)
  case Nil
  then show ?case by simp
next
  case (Cons a ps)
  obtain n l' where a: "a = (n, l')" by (cases a)
  have step: "port_outputs (a # ps) out = port_outputs ps (AList.update n (filter valid_buffer l') out)"
    by (simp add: port_outputs_def a)
  show ?case
  proof (cases "(name, l) \<in> set ps")
    case True
    with Cons show ?thesis by (simp add: step)
  next
    case False
    with Cons.prems a have eq: "name = n" "l = l'" by auto
    have notin: "n \<notin> fst ` set ps" using Cons.prems(1) a by simp
    have "map_of (port_outputs ps out') n = map_of out' n" for out'
      using notin
      by (induction ps arbitrary: out') (auto simp: port_outputs_def update_conv')
    then show ?thesis by (simp add: step eq update_conv')
  qed
qed


lemma reaches_delivery_cast:
  "reaches_delivery ss m \<longleftrightarrow>
     GetDataCount m \<noteq> 0 \<and> \<not> IsAbort (ss (GetMatchSession m))
     \<and> cast_ExternalDataMapImpl (GetSessionIO (ss (GetMatchSession m))) \<noteq> None"
  by (auto simp: reaches_delivery_def cast_ExternalDataMapImpl_def)

lemma deliver_reached:
  "reaches_delivery ss m \<Longrightarrow>
     deliver_match_stream_data ss m =
       [PushGraphOutputBuffer (GetMatchSession m) (port_outputs (GetBufferList m) []),
        SetLastError (GetMatchSession m) (last_error_of (delivered_buffers m))]"
  by (simp add: reaches_delivery_cast deliver_match_stream_data_def collect_port_data_eq
      delivered_buffers_def)

lemma deliver_skipped:
  "\<not> reaches_delivery ss m \<Longrightarrow> deliver_match_stream_data ss m = []"
  by (auto simp: reaches_delivery_cast deliver_match_stream_data_def)

lemma Run_calls:
  "fst (snd (OutputVirtualNode_Run G ss ports)) =
     (if fst (G (EraseInvalidData ss ports)) = STATUS_SUCCESS
      then concat (map (deliver_match_stream_data ss) (fst (snd (G (EraseInvalidData ss ports)))))
      else [])"
  by (cases "G (EraseInvalidData ss ports)")
     (auto simp: OutputVirtualNode_Run_def)

lemma Run_calls_split:
  assumes "G (EraseInvalidData ss ports) = (STATUS_SUCCESS, l1 @ m # l2, ports')"
  shows "fst (snd (OutputVirtualNode_Run G ss ports)) =
     concat (map (deliver_match_stream_data ss) l1) @ deliver_match_stream_data ss m
       @ concat (map (deliver_match_stream_data ss) l2)"
  using assms by (simp add: Run_calls)

lemmas example_defs =
  store0_def live_session_def dead_session_def aborted_session_def top_index_def
  data_buffer_def error_buffer_def end_buffer_def placeholder_buffer_def error_end_buffer_def
  stream0_def stream1_def stream_of_def stream_buffer_def
  depth1_index_def depth2_end_buffer_def

lemma mixed_match_calls:
  "fst (snd (OutputVirtualNode_Run (gen_match_stream_data [mixed_match]) store0 [])) =
     [PushGraphOutputBuffer 1
        [(''Out_1'', [data_buffer 1 1, error_buffer 2 1 ''e1'']),
         (''Out_2'', [error_buffer 5 1 ''e2'', data_buffer 6 1])],
      SetLastError 1 (Some ''e2'')]"
  by (simp add: OutputVirtualNode_Run_def gen_match_stream_data_def EraseInvalidData_def
      deliver_match_stream_data_def mixed_match_def cast_ExternalDataMapImpl_def HasError_def
      example_defs)

subsection \<open>What is pushed\<close>

text \<open>
  Claim C1. Every buffer that \<^verbatim>\<open>OutputVirtualNode::Run\<close> passes to
  \<^verbatim>\<open>PushGraphOutputBuffer\<close> is neither an end flag nor a placeholder, whatever
  list \<^verbatim>\<open>GenInputMatchStreamData\<close> produced: every list pushed under a port
  name is a per-port list of one of the match stream data with the end-flag and
  placeholder buffers removed.
\<close>

theorem OutputVirtualNode_Run_pushes_only_valid_buffers:
  "\<forall>call \<in> set (fst (snd (OutputVirtualNode_Run G ss ports))).
     \<forall>session out. call = PushGraphOutputBuffer session out \<longrightarrow>
       (\<forall>(name, bs) \<in> set out.
          (\<exists>m \<in> set (fst (snd (G (EraseInvalidData ss ports)))).
             \<exists>l. (name, l) \<in> set (GetBufferList m) \<and> bs = filter valid_buffer l)
          \<and> (\<forall>b \<in> set bs. \<not> IsEndFlag (GetIndexInfo b) \<and> \<not> IsPlaceholder (GetIndexInfo b)))"
proof (rule ballI, rule allI, rule allI, rule impI)
  fix call session out
  assume call: "call \<in> set (fst (snd (OutputVirtualNode_Run G ss ports)))"
    and push: "call = PushGraphOutputBuffer session out"
  let ?l = "fst (snd (G (EraseInvalidData ss ports)))"
  from call obtain m where m: "m \<in> set ?l" and cm: "call \<in> set (deliver_match_stream_data ss m)"
    by (auto simp: Run_calls split: if_splits)
  then have reach: "reaches_delivery ss m"
    using deliver_skipped by fastforce
  with cm push have out: "out = port_outputs (GetBufferList m) []"
    by (auto simp: deliver_reached)
  show "\<forall>(name, bs) \<in> set out.
          (\<exists>m \<in> set ?l. \<exists>l. (name, l) \<in> set (GetBufferList m) \<and> bs = filter valid_buffer l)
          \<and> (\<forall>b \<in> set bs. \<not> IsEndFlag (GetIndexInfo b) \<and> \<not> IsPlaceholder (GetIndexInfo b))"
  proof (clarify, intro conjI)
    fix name bs
    assume "(name, bs) \<in> set out"
    with out port_outputs_values [of name bs "GetBufferList m" "[]"]
    obtain l where l: "(name, l) \<in> set (GetBufferList m)" "bs = filter valid_buffer l"
      by auto
    with m show "\<exists>m \<in> set ?l. \<exists>l. (name, l) \<in> set (GetBufferList m) \<and> bs = filter valid_buffer l"
      by blast
    from l show "\<forall>b \<in> set bs. \<not> IsEndFlag (GetIndexInfo b) \<and> \<not> IsPlaceholder (GetIndexInfo b)"
      by (simp add: valid_buffer_def)
  qed
qed

theorem OutputVirtualNode_Run_pushes_only_valid_buffers_witness:
  "PushGraphOutputBuffer 1
     [(''Out_1'', [data_buffer 1 1, error_buffer 2 1 ''e1'']),
      (''Out_2'', [error_buffer 5 1 ''e2'', data_buffer 6 1])]
     \<in> set (fst (snd (OutputVirtualNode_Run (gen_match_stream_data [mixed_match]) store0 [])))
   \<and> \<not> IsEndFlag (GetIndexInfo (error_buffer 5 1 ''e2''))
   \<and> \<not> IsPlaceholder (GetIndexInfo (error_buffer 5 1 ''e2''))"
proof -
  let ?out = "[(''Out_1'', [data_buffer 1 1, error_buffer 2 1 ''e1'']),
      (''Out_2'', [error_buffer 5 1 ''e2'', data_buffer 6 1])]"
  let ?calls = "fst (snd (OutputVirtualNode_Run (gen_match_stream_data [mixed_match]) store0 []))"
  have mem: "PushGraphOutputBuffer 1 ?out \<in> set ?calls"
    by (simp add: mixed_match_calls)
  note OutputVirtualNode_Run_pushes_only_valid_buffers
    [of "gen_match_stream_data [mixed_match]" store0 "[]", THEN bspec, OF mem,
      THEN spec, THEN spec, THEN mp, OF refl]
  then have "\<not> IsEndFlag (GetIndexInfo (error_buffer 5 1 ''e2''))
      \<and> \<not> IsPlaceholder (GetIndexInfo (error_buffer 5 1 ''e2''))"
    by simp
  with mem show ?thesis by simp
qed

subsection \<open>Errors\<close>

text \<open>
  Claim C3, amended. For a match stream data \<open>m\<close> that reaches the delivery, the
  calls of \<^verbatim>\<open>Run\<close> for \<open>m\<close> are one \<^verbatim>\<open>PushGraphOutputBuffer\<close> followed by
  one \<^verbatim>\<open>SetLastError\<close>. The pushed list of a port holds exactly the buffers of
  the port that are neither end flag nor placeholder, so a buffer with an error is
  delivered when it is neither; the argument of \<^verbatim>\<open>SetLastError\<close> is the error
  of the last buffer with an error among the delivered ones, null when there is none.
\<close>

theorem OutputVirtualNode_Run_error_delivery:
  assumes gen: "G (EraseInvalidData ss ports) = (STATUS_SUCCESS, l1 @ m # l2, ports')"
    and reach: "reaches_delivery ss m"
    and dist: "distinct (map fst (GetBufferList m))"
  shows "\<exists>out.
     fst (snd (OutputVirtualNode_Run G ss ports)) =
       concat (map (deliver_match_stream_data ss) l1)
       @ [PushGraphOutputBuffer (GetMatchSession m) out,
          SetLastError (GetMatchSession m) (last_error_of (delivered_buffers m))]
       @ concat (map (deliver_match_stream_data ss) l2)
     \<and> (\<forall>(name, l) \<in> set (GetBufferList m).
          map_of out name = Some (filter valid_buffer l)
          \<and> (\<forall>b \<in> set l. HasError b \<longrightarrow> valid_buffer b \<longrightarrow>
                (\<exists>bs. map_of out name = Some bs \<and> b \<in> set bs)))"
proof (intro exI conjI)
  show "fst (snd (OutputVirtualNode_Run G ss ports)) =
       concat (map (deliver_match_stream_data ss) l1)
       @ [PushGraphOutputBuffer (GetMatchSession m) (port_outputs (GetBufferList m) []),
          SetLastError (GetMatchSession m) (last_error_of (delivered_buffers m))]
       @ concat (map (deliver_match_stream_data ss) l2)"
    using Run_calls_split [of G ss ports l1 m l2 ports', OF gen] deliver_reached [OF reach] by simp
  show "\<forall>(name, l) \<in> set (GetBufferList m).
          map_of (port_outputs (GetBufferList m) []) name = Some (filter valid_buffer l)
          \<and> (\<forall>b \<in> set l. HasError b \<longrightarrow> valid_buffer b \<longrightarrow>
                (\<exists>bs. map_of (port_outputs (GetBufferList m) []) name = Some bs \<and> b \<in> set bs))"
  proof (clarify)
    fix name l
    assume "(name, l) \<in> set (GetBufferList m)"
    from port_outputs_map_of [OF dist this]
    have "map_of (port_outputs (GetBufferList m) []) name = Some (filter valid_buffer l)" .
    then show "map_of (port_outputs (GetBufferList m) []) name = Some (filter valid_buffer l)
        \<and> (\<forall>b \<in> set l. HasError b \<longrightarrow> valid_buffer b \<longrightarrow>
              (\<exists>bs. map_of (port_outputs (GetBufferList m) []) name = Some bs \<and> b \<in> set bs))"
      by simp
  qed
qed

theorem OutputVirtualNode_Run_error_delivery_witness:
  "fst (snd (OutputVirtualNode_Run (gen_match_stream_data [mixed_match]) store0 [])) =
     [PushGraphOutputBuffer 1
        [(''Out_1'', [data_buffer 1 1, error_buffer 2 1 ''e1'']),
         (''Out_2'', [error_buffer 5 1 ''e2'', data_buffer 6 1])],
      SetLastError 1 (Some ''e2'')]
   \<and> reaches_delivery store0 mixed_match
   \<and> distinct (map fst (GetBufferList mixed_match))
   \<and> last_error_of (delivered_buffers mixed_match) = Some ''e2''"
proof -
  have gen: "gen_match_stream_data [mixed_match] (EraseInvalidData store0 []) =
      (STATUS_SUCCESS, [] @ mixed_match # [], [])"
    by (simp add: gen_match_stream_data_def EraseInvalidData_def)
  have reach: "reaches_delivery store0 mixed_match"
    by (simp add: reaches_delivery_def mixed_match_def example_defs)
  have dist: "distinct (map fst (GetBufferList mixed_match))"
    by (simp add: mixed_match_def)
  from OutputVirtualNode_Run_error_delivery
    [of "gen_match_stream_data [mixed_match]" store0 "[]" "[]" mixed_match "[]" "[]", OF gen reach dist]
  obtain out where
    "fst (snd (OutputVirtualNode_Run (gen_match_stream_data [mixed_match]) store0 [])) =
       concat (map (deliver_match_stream_data store0) [])
       @ [PushGraphOutputBuffer (GetMatchSession mixed_match) out,
          SetLastError (GetMatchSession mixed_match)
            (last_error_of (delivered_buffers mixed_match))]
       @ concat (map (deliver_match_stream_data store0) [])"
    by blast
  then have "last_error_of (delivered_buffers mixed_match) = Some ''e2''"
    by (simp add: mixed_match_calls)
  with reach dist show ?thesis by (simp add: mixed_match_calls)
qed

text \<open>
  The claim as stated fails for an end-flag buffer that carries an error: the
  buffer is dropped before its error is looked at, the push holds an empty list and
  \<^verbatim>\<open>SetLastError\<close> receives null.
\<close>

theorem error_end_flag_buffer_not_delivered:
  "OutputVirtualNode_Run (gen_match_stream_data [error_end_match]) store0 [] =
     (STATUS_SUCCESS,
      [PushGraphOutputBuffer 1 [(''Out_1'', [])], SetLastError 1 None], [])
   \<and> GetBufferList error_end_match = [(''Out_1'', [error_end_buffer 1 1 ''failed''])]
   \<and> HasError (error_end_buffer 1 1 ''failed'')
   \<and> reaches_delivery store0 error_end_match"
  by (simp add: OutputVirtualNode_Run_def gen_match_stream_data_def EraseInvalidData_def
      deliver_match_stream_data_def error_end_match_def cast_ExternalDataMapImpl_def
      HasError_def reaches_delivery_def example_defs)

subsection \<open>A group of end flags and placeholders\<close>




section \<open>Properties of SessionUnmatchCache\<close>

subsection \<open>PopCache\<close>

lemma valid_data_list_filter: "valid_data_list l = filter valid_buffer l"
  by (induction l) (simp_all add: valid_buffer_def)

lemma pop_outputs_Cons:
  "pop_outputs ((n, ps) # m) out = pop_outputs m (AList.update n (first_bucket_output ps) out)"
  by (simp add: pop_outputs_def)

lemma pop_ports_eq:
  "pop_ports m out =
     (map (\<lambda>(name, ps). (name, drop 1 ps)) m, pop_outputs m out,
      length (filter (\<lambda>(name, ps). ps = []) m))"
proof (induction m out rule: pop_ports.induct)
  case (1 out)
  then show ?case by (simp add: pop_outputs_def)
next
  case (2 port_name rest out)
  then show ?case by (simp add: pop_outputs_Cons first_bucket_output_def)
next
  case (3 port_name first_stream_item others rest out)
  then show ?case
    by (simp add: pop_outputs_Cons first_bucket_output_def valid_data_list_filter)
qed



lemma filter_empty_length:
  "(length (filter P xs) = length xs) = (\<forall>x \<in> set xs. P x)"
proof (induction xs)
  case Nil
  then show ?case by simp
next
  case (Cons x xs)
  have "length (filter P xs) \<noteq> Suc (length xs)"
    using length_filter_le [of P xs] by arith
  with Cons show ?case by auto
qed








subsection \<open>CacheBuffer and AllPortStreamEnd\<close>

text \<open>
  The loop of \<^verbatim>\<open>CacheBuffer\<close> finds the root ancestor of the spec, and fails
  exactly when there is none.
\<close>

lemma cur_level_buffer_root_ancestor: "cur_level_buffer i = root_ancestor i"
  by (induction i rule: cur_level_buffer.induct)
     (simp add: root_ancestor_def split: option.splits)

lemma root_ancestor_depth:
  "root_ancestor i = Some root \<Longrightarrow> GetDeepth (GetInheritInfo root) = 0"
  by (auto simp: root_ancestor_def find_Some_iff)

lemma root_ancestor_on_chain:
  "root_ancestor i = Some root \<Longrightarrow> root \<in> set (inherit_chain i)"
  by (auto simp: root_ancestor_def find_Some_iff)

text \<open>\<^verbatim>\<open>CacheBuffer\<close> keeps the stream maps in the order of their keys.\<close>

lemma push_back_stream_keys:
  "fst ` set (push_back_stream stream_less stream b ps) = insert stream (fst ` set ps)"
proof (induction ps)
  case Nil
  then show ?case by simp
next
  case (Cons a ps)
  obtain k l where a: "a = (k, l)" by (cases a)
  show ?case
  proof (cases "k = stream")
    case True
    then show ?thesis by (simp add: a)
  next
    case ne: False
    show ?thesis
    proof (cases "stream_less stream k")
      case True
      with ne show ?thesis by (simp add: a)
    next
      case False
      with ne Cons.IH show ?thesis by (simp add: a insert_commute)
    qed
  qed
qed

lemma push_back_stream_sorted:
  assumes "key_order stream_less"
  shows "sorted_wrt stream_less (map fst ps)
     \<Longrightarrow> sorted_wrt stream_less (map fst (push_back_stream stream_less stream b ps))"
proof (induction ps)
  case Nil
  then show ?case by simp
next
  case (Cons a ps)
  obtain k l where a: "a = (k, l)" by (cases a)
  from Cons.prems a have tail: "sorted_wrt stream_less (map fst ps)"
    and head: "\<forall>x \<in> set ps. stream_less k (fst x)"
    by simp_all
  from assms have trans: "stream_less x y \<Longrightarrow> stream_less y z \<Longrightarrow> stream_less x z"
    and total: "x \<noteq> y \<Longrightarrow> stream_less x y \<or> stream_less y x" for x y z
    unfolding key_order_def by blast+
  show ?case
  proof (cases "k = stream")
    case True
    with Cons.prems a show ?thesis by simp
  next
    case ne: False
    show ?thesis
    proof (cases "stream_less stream k")
      case True
      with head trans have "\<forall>x \<in> set ps. stream_less stream (fst x)" by blast
      with True ne a Cons.prems show ?thesis by simp
    next
      case False
      with ne total [of k stream] have ks: "stream_less k stream" by blast
      have "\<forall>x \<in> set (push_back_stream stream_less stream b ps). stream_less k (fst x)"
      proof
        fix x
        assume "x \<in> set (push_back_stream stream_less stream b ps)"
        then have "fst x \<in> insert stream (fst ` set ps)"
          using push_back_stream_keys [of stream_less stream b ps] by blast
        with ks head show "stream_less k (fst x)" by auto
      qed
      with False ne a Cons.IH [OF tail] show ?thesis by simp
    qed
  qed
qed

lemma new_SessionUnmatchCache_key_order:
  "cache_in_key_order stream_less (new_SessionUnmatchCache port_names)"
  by (simp add: cache_in_key_order_def new_SessionUnmatchCache_def)

lemma lookup_list_sorted:
  "\<forall>(name, ps) \<in> set m. sorted_wrt P (map fst ps) \<Longrightarrow>
     sorted_wrt P (map fst (lookup_list m port_name))"
  by (auto simp: lookup_list_def split: option.splits dest: map_of_SomeD)

lemma update_values:
  "(k', v') \<in> set (AList.update k v m) \<Longrightarrow> (k', v') = (k, v) \<or> (k', v') \<in> set m"
  using alist_update_subset [of k v m] by auto

lemma CacheBuffer_keeps_key_order:
  assumes order: "key_order stream_less"
    and inv: "cache_in_key_order stream_less c"
    and cached: "CacheBuffer stream_less port_name b c = Some c'"
  shows "cache_in_key_order stream_less c'"
proof -
  let ?ps = "push_back_stream stream_less (GetStream (GetIndexInfo b)) b
      (lookup_list (port_streams_map c) port_name)"
  from cached have m': "port_streams_map c' = AList.update port_name ?ps (port_streams_map c)"
    by (auto simp: CacheBuffer_def Let_def split: if_splits option.splits)
  from inv have dist: "distinct (map fst (port_streams_map c))"
    and sorted: "\<forall>(name, ps) \<in> set (port_streams_map c). sorted_wrt stream_less (map fst ps)"
    by (simp_all add: cache_in_key_order_def)
  have new: "sorted_wrt stream_less (map fst ?ps)"
    using push_back_stream_sorted [OF order lookup_list_sorted [OF sorted]] .
  have "sorted_wrt stream_less (map fst ps)"
    if "(name, ps) \<in> set (AList.update port_name ?ps (port_streams_map c))" for name ps
    using update_values [OF that] new sorted by auto
  with dist show ?thesis
    unfolding cache_in_key_order_def m' by (auto simp: distinct_update)
qed

lemma CacheBuffer_returns:
  "walk_reaches_top b \<Longrightarrow> \<exists>c'. CacheBuffer stream_less port_name b c = Some c'"
  by (auto simp: CacheBuffer_def Let_def walk_reaches_top_def cur_level_buffer_root_ancestor)

lemma CacheBuffer_fails:
  "\<not> walk_reaches_top b \<Longrightarrow> CacheBuffer stream_less port_name b c = None"
  by (auto simp: CacheBuffer_def Let_def walk_reaches_top_def cur_level_buffer_root_ancestor)

lemma AllPortStreamEnd_loop_all:
  "AllPortStreamEnd_loop m = (\<forall>(name, flag) \<in> set m. flag)"
  by (induction m) auto

lemma port_end_flag_update:
  "map_of (AList.update port_name True m) p = Some True
     \<longleftrightarrow> p = port_name \<or> map_of m p = Some True"
  by (simp add: update_conv')

text \<open>
  Claim C4. Let the \<^verbatim>\<open>InheritFrom\<close> chain of a buffer reach an index info of
  depth 0, and let \<open>root\<close> be the first one, the root ancestor of the spec. Then
  \<^verbatim>\<open>CacheBuffer\<close> returns, and it sets the end flag of the port to \<open>true\<close>
  exactly when the buffer is an end flag and \<open>root\<close> is an end flag; otherwise
  the flags are left as they were, and the flags of the other ports are never touched.
  \<^verbatim>\<open>AllPortStreamEnd\<close> is true exactly when every entry of the flag map is true.
\<close>

theorem CacheBuffer_port_end_flag:
  assumes root: "root_ancestor (GetIndexInfo b) = Some root"
  shows "root \<in> set (inherit_chain (GetIndexInfo b)) \<and> GetDeepth (GetInheritInfo root) = 0
     \<and> (\<exists>c'. CacheBuffer stream_less port_name b c = Some c'
          \<and> port_end_flag_map c' =
              (if IsEndFlag (GetIndexInfo b) \<and> IsEndFlag root
               then AList.update port_name True (port_end_flag_map c)
               else port_end_flag_map c)
          \<and> (port_end_flag c' port_name \<longleftrightarrow>
                port_end_flag c port_name \<or> (IsEndFlag (GetIndexInfo b) \<and> IsEndFlag root))
          \<and> (\<forall>p. p \<noteq> port_name \<longrightarrow> port_end_flag c' p = port_end_flag c p))
     \<and> (AllPortStreamEnd c0 \<longleftrightarrow> (\<forall>(name, flag) \<in> set (port_end_flag_map c0). flag))"
proof (intro conjI)
  show "root \<in> set (inherit_chain (GetIndexInfo b))"
    using root by (rule root_ancestor_on_chain)
  show "GetDeepth (GetInheritInfo root) = 0"
    using root by (rule root_ancestor_depth)
  show "AllPortStreamEnd c0 \<longleftrightarrow> (\<forall>(name, flag) \<in> set (port_end_flag_map c0). flag)"
    by (simp add: AllPortStreamEnd_def AllPortStreamEnd_loop_all)
  from root have walk: "cur_level_buffer (GetIndexInfo b) = Some root"
    by (simp add: cur_level_buffer_root_ancestor)
  show "\<exists>c'. CacheBuffer stream_less port_name b c = Some c'
          \<and> port_end_flag_map c' =
              (if IsEndFlag (GetIndexInfo b) \<and> IsEndFlag root
               then AList.update port_name True (port_end_flag_map c)
               else port_end_flag_map c)
          \<and> (port_end_flag c' port_name \<longleftrightarrow>
                port_end_flag c port_name \<or> (IsEndFlag (GetIndexInfo b) \<and> IsEndFlag root))
          \<and> (\<forall>p. p \<noteq> port_name \<longrightarrow> port_end_flag c' p = port_end_flag c p)"
    using walk
    by (auto simp: CacheBuffer_def Let_def port_end_flag_def port_end_flag_update)
qed

theorem CacheBuffer_port_end_flag_witness:
  "root_ancestor (GetIndexInfo (depth2_end_buffer 7 1 False True))
     = Some (top_index 0 1 True False)
   \<and> (\<exists>c'. CacheBuffer stream_order ''In_1'' (depth2_end_buffer 7 1 False True)
               (new_SessionUnmatchCache [''In_1'', ''In_2'']) = Some c'
          \<and> port_end_flag_map c' = [(''In_1'', True), (''In_2'', False)])
   \<and> root_ancestor (GetIndexInfo (depth2_end_buffer 8 1 True False))
     = Some (top_index 0 1 False False)
   \<and> (\<exists>c'. CacheBuffer stream_order ''In_1'' (depth2_end_buffer 8 1 True False)
               (new_SessionUnmatchCache [''In_1'', ''In_2'']) = Some c'
          \<and> port_end_flag_map c' = [(''In_1'', False), (''In_2'', False)])
   \<and> \<not> AllPortStreamEnd (new_SessionUnmatchCache [''In_1'', ''In_2''])"
proof -
  let ?new = "new_SessionUnmatchCache [''In_1'', ''In_2'']"
  have root7: "root_ancestor (GetIndexInfo (depth2_end_buffer 7 1 False True))
      = Some (top_index 0 1 True False)"
    by (simp add: root_ancestor_def example_defs)
  have root8: "root_ancestor (GetIndexInfo (depth2_end_buffer 8 1 True False))
      = Some (top_index 0 1 False False)"
    by (simp add: root_ancestor_def example_defs)
  have flags: "port_end_flag_map ?new = [(''In_1'', False), (''In_2'', False)]"
    by (simp add: new_SessionUnmatchCache_def)
  have e7: "IsEndFlag (GetIndexInfo (depth2_end_buffer 7 1 False True))"
    "IsEndFlag (top_index 0 1 True False)"
    by (simp_all add: example_defs)
  have e8: "IsEndFlag (GetIndexInfo (depth2_end_buffer 8 1 True False))"
    "\<not> IsEndFlag (top_index 0 1 False False)"
    by (simp_all add: example_defs)
  note th7 = CacheBuffer_port_end_flag [OF root7, of stream_order "''In_1''" ?new ?new]
  note th8 = CacheBuffer_port_end_flag [OF root8, of stream_order "''In_1''" ?new ?new]
  from th7 obtain c7 where c7: "CacheBuffer stream_order ''In_1''
        (depth2_end_buffer 7 1 False True) ?new = Some c7"
    and f7: "port_end_flag_map c7 =
        (if IsEndFlag (GetIndexInfo (depth2_end_buffer 7 1 False True))
            \<and> IsEndFlag (top_index 0 1 True False)
         then AList.update ''In_1'' True (port_end_flag_map ?new)
         else port_end_flag_map ?new)"
    by blast
  from th8 obtain c8 where c8: "CacheBuffer stream_order ''In_1''
        (depth2_end_buffer 8 1 True False) ?new = Some c8"
    and f8: "port_end_flag_map c8 =
        (if IsEndFlag (GetIndexInfo (depth2_end_buffer 8 1 True False))
            \<and> IsEndFlag (top_index 0 1 False False)
         then AList.update ''In_1'' True (port_end_flag_map ?new)
         else port_end_flag_map ?new)"
    by blast
  from f7 e7 have f7': "port_end_flag_map c7 = [(''In_1'', True), (''In_2'', False)]"
    by (simp add: flags)
  from f8 e8 have f8': "port_end_flag_map c8 = [(''In_1'', False), (''In_2'', False)]"
    by (simp add: flags)
  from th7 have nall: "\<not> AllPortStreamEnd ?new"
    by (simp add: flags)
  from c7 f7' have ex7: "\<exists>c'. CacheBuffer stream_order ''In_1''
        (depth2_end_buffer 7 1 False True) ?new = Some c'
      \<and> port_end_flag_map c' = [(''In_1'', True), (''In_2'', False)]"
    by blast
  from c8 f8' have ex8: "\<exists>c'. CacheBuffer stream_order ''In_1''
        (depth2_end_buffer 8 1 True False) ?new = Some c'
      \<and> port_end_flag_map c' = [(''In_1'', False), (''In_2'', False)]"
    by blast
  show ?thesis
    by (intro conjI root7 ex7 root8 ex8 nall)
qed

section \<open>Properties of OutputUnmatchVirtualNode::Run\<close>

subsection \<open>The loops\<close>

lemma PopCache_eq:
  "PopCache c out =
     (if \<forall>(name, ps) \<in> set (port_streams_map c). ps = [] then STATUS_NODATA
      else STATUS_CONTINUE,
      c\<lparr>port_streams_map := map (\<lambda>(name, ps). (name, drop 1 ps)) (port_streams_map c)\<rparr>,
      pop_outputs (port_streams_map c) out)"
  by (simp add: PopCache_def pop_ports_eq filter_empty_length)

lemma pop_all_cache:
  "fst (snd (pop_all session c out)) =
     c\<lparr>port_streams_map := map (\<lambda>(name, ps). (name, [])) (port_streams_map c)\<rparr>"
proof (induction session c out rule: pop_all.induct)
  case (1 session cache out)
  let ?m = "port_streams_map cache"
  show ?case
  proof (cases "\<forall>(name, ps) \<in> set ?m. ps = []")
    case True
    then have "map (\<lambda>(name, ps). (name, drop 1 ps)) ?m = map (\<lambda>(name, ps). (name, [])) ?m"
      by auto
    with True show ?thesis
      by (subst pop_all.simps) (simp add: PopCache_eq)
  next
    case False
    then have st: "fst (PopCache cache out) \<noteq> STATUS_NODATA"
      by (simp add: PopCache_eq)
    obtain ret c' o' where p: "PopCache cache out = (ret, c', o')"
      by (cases "PopCache cache out")
    with st have ret: "ret \<noteq> STATUS_NODATA" by simp
    from "1.IH" [OF p [symmetric] refl ret]
    have ih: "fst (snd (pop_all session c' o')) =
        c'\<lparr>port_streams_map := map (\<lambda>(name, ps). (name, [])) (port_streams_map c')\<rparr>" .
    from p have c': "c' = cache\<lparr>port_streams_map :=
        map (\<lambda>(name, ps). (name, drop 1 ps)) ?m\<rparr>"
      by (simp add: PopCache_eq)
    have "fst (snd (pop_all session cache out)) = fst (snd (pop_all session c' o'))"
      using p ret by (subst pop_all.simps) (simp add: split_beta)
    with ih show ?thesis
      by (simp add: c' split_beta comp_def)
  qed
qed


lemma push_session_cache_flags:
  "port_end_flag_map (snd (push_session_cache ss session c)) = port_end_flag_map c"
  by (simp add: push_session_cache_def split_beta pop_all_cache)

lemma push_session_cache_no_io:
  "cast_ExternalDataMapImpl (GetSessionIO (ss session)) = None \<Longrightarrow>
     push_session_cache ss session c = ([], c)"
  by (simp add: push_session_cache_def)

lemma push_session_cache_io:
  "cast_ExternalDataMapImpl (GetSessionIO (ss session)) \<noteq> None \<Longrightarrow>
     snd (push_session_cache ss session c) =
       c\<lparr>port_streams_map := map (\<lambda>(name, ps). (name, [])) (port_streams_map c)\<rparr>"
  by (simp add: push_session_cache_def split_beta pop_all_cache)

lemma AllPortStreamEnd_push:
  "AllPortStreamEnd (snd (push_session_cache ss session c)) = AllPortStreamEnd c"
  by (simp add: AllPortStreamEnd_def push_session_cache_flags)

lemma walk_sessions_map:
  "snd (walk_sessions ss m) =
     map (\<lambda>(s, c). (s, snd (push_session_cache ss s c)))
       (filter (\<lambda>(s, c). \<not> (AllPortStreamEnd c \<or> IsAbort (ss s))) m)"
  by (induction m) (auto simp: split_beta AllPortStreamEnd_push)

lemma cache_buffers_distinct:
  "cache_buffers ss stream_less names port_name buffers m = Some m' \<Longrightarrow> distinct (map fst m)
     \<Longrightarrow> distinct (map fst m')"
proof (induction buffers arbitrary: m)
  case Nil
  then show ?case by simp
next
  case (Cons b buffers)
  then show ?case
    by (auto split: if_splits option.splits simp: distinct_update)
qed

lemma cache_buffers_keys:
  "cache_buffers ss stream_less names port_name buffers m = Some m' \<Longrightarrow>
     fst ` set m' = fst ` set m
       \<union> {buffer_session b | b. b \<in> set buffers \<and> \<not> IsAbort (ss (buffer_session b))}"
proof (induction buffers arbitrary: m)
  case Nil
  then show ?case by simp
next
  case (Cons b buffers)
  show ?case
  proof (cases "IsAbort (ss (buffer_session b))")
    case True
    with Cons.prems have "cache_buffers ss stream_less names port_name buffers m = Some m'" by simp
    from Cons.IH [OF this] True show ?thesis by auto
  next
    case False
    with Cons.prems obtain c' where
      rec: "cache_buffers ss stream_less names port_name buffers (AList.update (buffer_session b) c' m)
          = Some m'"
      by (auto split: option.splits)
    from Cons.IH [OF rec] False show ?thesis
      by (auto simp: update_key_set)
  qed
qed

lemma recv_ports_distinct:
  "recv_ports ss stream_less names ports m = Some m' \<Longrightarrow> distinct (map fst m)
     \<Longrightarrow> distinct (map fst m')"
proof (induction ports arbitrary: m)
  case Nil
  then show ?case by simp
next
  case (Cons p ports)
  obtain n q where p: "p = (n, q)" by (cases p)
  with Cons.prems obtain m1 where m1: "cache_buffers ss stream_less names n q m = Some m1"
    and rec: "recv_ports ss stream_less names ports m1 = Some m'"
    by (auto split: option.splits)
  from Cons.IH [OF rec] cache_buffers_distinct [OF m1] Cons.prems(2) show ?case by simp
qed

lemma recv_ports_keys:
  "recv_ports ss stream_less names ports m = Some m' \<Longrightarrow>
     fst ` set m' = fst ` set m
       \<union> {buffer_session b | b. (\<exists>q \<in> snd ` set ports. b \<in> set q)
            \<and> \<not> IsAbort (ss (buffer_session b))}"
proof (induction ports arbitrary: m)
  case Nil
  then show ?case by simp
next
  case (Cons p ports)
  obtain n q where p: "p = (n, q)" by (cases p)
  with Cons.prems obtain m1 where m1: "cache_buffers ss stream_less names n q m = Some m1"
    and rec: "recv_ports ss stream_less names ports m1 = Some m'"
    by (auto split: option.splits)
  show ?case
    unfolding Cons.IH [OF rec] cache_buffers_keys [OF m1] p by auto
qed

lemma unmatch_node0_routed_eq:
  "routed_cache_map store0 stream_order unmatch_node0 = Some unmatch_node0_routed"
  by code_simp

lemma unmatch_node0_run:
  "OutputUnmatchVirtualNode_Run store0 stream_order unmatch_node0 =
     Some (STATUS_SUCCESS,
           [SetLastError 2 None, SetLastError 1 None,
            PushGraphOutputBuffer 1 [(''In_1'', [data_buffer 1 1])]],
           unmatch_node0_after)"
  by code_simp


text \<open>
  \<^verbatim>\<open>Run\<close> returns when every end flag received has a chain that reaches
  depth 0, and the buffers of an aborted session never enter the cache map.
\<close>

lemma cache_buffers_returns:
  "\<forall>b \<in> set buffers. walk_reaches_top b \<Longrightarrow>
     \<exists>m'. cache_buffers ss stream_less names port_name buffers m = Some m'"
proof (induction buffers arbitrary: m)
  case Nil
  then show ?case by simp
next
  case (Cons b buffers)
  then have b: "walk_reaches_top b" and rest: "\<forall>b \<in> set buffers. walk_reaches_top b"
    by simp_all
  show ?case
  proof (cases "IsAbort (ss (buffer_session b))")
    case True
    with Cons.IH [OF rest] show ?thesis by simp
  next
    case False
    from CacheBuffer_returns [OF b] obtain c' where
      "CacheBuffer stream_less port_name b
         (case map_of m (buffer_session b) of
            None \<Rightarrow> new_SessionUnmatchCache names
          | Some session_cache \<Rightarrow> session_cache) = Some c'"
      by blast
    with False Cons.IH [OF rest] show ?thesis by simp
  qed
qed

lemma recv_ports_returns:
  "\<forall>(name, q) \<in> set ports. \<forall>b \<in> set q. walk_reaches_top b \<Longrightarrow>
     \<exists>m'. recv_ports ss stream_less names ports m = Some m'"
proof (induction ports arbitrary: m)
  case Nil
  then show ?case by simp
next
  case (Cons p ports)
  obtain n q where p: "p = (n, q)" by (cases p)
  with Cons.prems have q: "\<forall>b \<in> set q. walk_reaches_top b"
    and rest: "\<forall>(name, q) \<in> set ports. \<forall>b \<in> set q. walk_reaches_top b"
    by simp_all
  from cache_buffers_returns [OF q] obtain m1 where
    "cache_buffers ss stream_less names n q m = Some m1" by blast
  with Cons.IH [OF rest] p show ?case by simp
qed

lemma OutputUnmatchVirtualNode_Run_returns:
  assumes "\<forall>(name, q) \<in> set (node_input_ports node). \<forall>b \<in> set q. walk_reaches_top b"
  shows "\<exists>calls node'. OutputUnmatchVirtualNode_Run ss stream_less node = Some (STATUS_SUCCESS, calls, node')"
proof -
  from recv_ports_returns [OF assms] obtain m where
    "recv_ports ss stream_less (map fst (node_input_ports node)) (node_input_ports node)
       (session_cache_map node) = Some m"
    by blast
  then show ?thesis
    by (simp add: OutputUnmatchVirtualNode_Run_def split: prod.splits)
qed




subsection \<open>Which sessions are erased\<close>

text \<open>
  Claim C6. Let \<open>m\<close> be the cache map after the first loop of \<^verbatim>\<open>Run\<close>: the
  entries at entry and those created for the sessions of the buffers received that
  are not aborted. At the end of \<^verbatim>\<open>Run\<close> the entry of a session of \<open>m\<close> is
  gone exactly when its cache reports \<^verbatim>\<open>AllPortStreamEnd()\<close> or the session is
  aborted; otherwise the entry stays, with the cache that the pushes left (the cache
  itself when the session has no \<^verbatim>\<open>ExternalDataMapImpl\<close>). No other entry
  appears.
\<close>

theorem OutputUnmatchVirtualNode_Run_erases_ended_or_aborted:
  assumes dist: "distinct (map fst (session_cache_map node))"
    and run: "OutputUnmatchVirtualNode_Run ss stream_less node = Some (st, calls, node')"
  shows "\<exists>m. routed_cache_map ss stream_less node = Some m
     \<and> fst ` set m = fst ` set (session_cache_map node)
          \<union> {buffer_session b | b. (\<exists>q \<in> snd ` set (node_input_ports node). b \<in> set q)
               \<and> \<not> IsAbort (ss (buffer_session b))}
     \<and> (\<forall>(s, c) \<in> set m.
          (s \<notin> fst ` set (session_cache_map node'))
            = (AllPortStreamEnd c \<or> IsAbort (ss s)))
     \<and> (\<forall>(s, c) \<in> set m. \<not> (AllPortStreamEnd c \<or> IsAbort (ss s)) \<longrightarrow>
          map_of (session_cache_map node') s = Some (snd (push_session_cache ss s c))
          \<and> (cast_ExternalDataMapImpl (GetSessionIO (ss s)) = None \<longrightarrow>
               map_of (session_cache_map node') s = Some c))
     \<and> fst ` set (session_cache_map node') \<subseteq> fst ` set m"
proof -
  from run obtain m where m: "routed_cache_map ss stream_less node = Some m"
    and node': "session_cache_map node' = snd (walk_sessions ss m)"
    by (auto simp: OutputUnmatchVirtualNode_Run_def routed_cache_map_def
        split: option.splits prod.splits)
  let ?keep = "\<lambda>(s, c). \<not> (AllPortStreamEnd c \<or> IsAbort (ss s))"
  let ?push = "\<lambda>(s, c). (s, snd (push_session_cache ss s c))"
  have m': "session_cache_map node' = map ?push (filter ?keep m)"
    by (simp add: node' walk_sessions_map)
  have dm: "distinct (map fst m)"
    using recv_ports_distinct [OF m [unfolded routed_cache_map_def] dist] .
  have mkeys: "map fst (session_cache_map node') = map fst (filter ?keep m)"
    by (simp add: m' comp_def split_beta)
  then have keys: "fst ` set (session_cache_map node') = fst ` set (filter ?keep m)"
    by (metis set_map)
  have unique: "c = c'" if "(s, c) \<in> set m" "(s, c') \<in> set m" for s c c'
    using dm that by (rule eq_key_imp_eq_value)
  have erased: "(s \<notin> fst ` set (session_cache_map node'))
      = (AllPortStreamEnd c \<or> IsAbort (ss s))" if sc: "(s, c) \<in> set m" for s c
  proof
    assume notin: "s \<notin> fst ` set (session_cache_map node')"
    show "AllPortStreamEnd c \<or> IsAbort (ss s)"
    proof (rule ccontr)
      assume "\<not> (AllPortStreamEnd c \<or> IsAbort (ss s))"
      with sc have "(s, c) \<in> set (filter ?keep m)" by simp
      then have "s \<in> fst ` set (filter ?keep m)" by (rule image_eqI [rotated]) simp
      with notin keys show False by simp
    qed
  next
    assume gone: "AllPortStreamEnd c \<or> IsAbort (ss s)"
    show "s \<notin> fst ` set (session_cache_map node')"
    proof
      assume "s \<in> fst ` set (session_cache_map node')"
      with keys obtain c' where in': "(s, c') \<in> set m"
        and keep: "\<not> (AllPortStreamEnd c' \<or> IsAbort (ss s))"
        by auto
      from unique [OF sc in'] keep gone show False by simp
    qed
  qed
  have kept: "map_of (session_cache_map node') s = Some (snd (push_session_cache ss s c))"
    if sc: "(s, c) \<in> set m" and keep: "\<not> (AllPortStreamEnd c \<or> IsAbort (ss s))" for s c
  proof -
    have "distinct (map fst (session_cache_map node'))"
      unfolding mkeys using dm by (rule distinct_map_filter)
    moreover from sc keep have "(s, c) \<in> set (filter ?keep m)" by simp
    then have "?push (s, c) \<in> ?push ` set (filter ?keep m)" by (rule imageI)
    then have "(s, snd (push_session_cache ss s c)) \<in> set (session_cache_map node')"
      by (simp add: m')
    ultimately show ?thesis by (rule map_of_is_SomeI)
  qed
  show ?thesis
  proof (intro exI conjI)
    show "routed_cache_map ss stream_less node = Some m" by (rule m)
    show "fst ` set m = fst ` set (session_cache_map node)
          \<union> {buffer_session b | b. (\<exists>q \<in> snd ` set (node_input_ports node). b \<in> set q)
               \<and> \<not> IsAbort (ss (buffer_session b))}"
      using recv_ports_keys [OF m [unfolded routed_cache_map_def]] .
    show "\<forall>(s, c) \<in> set m. (s \<notin> fst ` set (session_cache_map node'))
            = (AllPortStreamEnd c \<or> IsAbort (ss s))"
      using erased by (simp add: split_beta)
    show "\<forall>(s, c) \<in> set m. \<not> (AllPortStreamEnd c \<or> IsAbort (ss s)) \<longrightarrow>
          map_of (session_cache_map node') s = Some (snd (push_session_cache ss s c))
          \<and> (cast_ExternalDataMapImpl (GetSessionIO (ss s)) = None \<longrightarrow>
               map_of (session_cache_map node') s = Some c)"
    proof (rule ballI)
      fix x
      assume xm: "x \<in> set m"
      obtain s c where x: "x = (s, c)" by (cases x)
      have "map_of (session_cache_map node') s = Some (snd (push_session_cache ss s c))
          \<and> (cast_ExternalDataMapImpl (GetSessionIO (ss s)) = None \<longrightarrow>
               map_of (session_cache_map node') s = Some c)"
        if k: "\<not> (AllPortStreamEnd c \<or> IsAbort (ss s))"
        using kept [OF xm [unfolded x] k] by (simp add: push_session_cache_no_io)
      then show "case x of (s, c) \<Rightarrow> \<not> (AllPortStreamEnd c \<or> IsAbort (ss s)) \<longrightarrow>
          map_of (session_cache_map node') s = Some (snd (push_session_cache ss s c))
          \<and> (cast_ExternalDataMapImpl (GetSessionIO (ss s)) = None \<longrightarrow>
               map_of (session_cache_map node') s = Some c)"
        unfolding x prod.case by (rule impI)
    qed
    show "fst ` set (session_cache_map node') \<subseteq> fst ` set m"
      unfolding keys by auto
  qed
qed

theorem OutputUnmatchVirtualNode_Run_erases_ended_or_aborted_witness:
  "distinct (map fst (session_cache_map unmatch_node0))
   \<and> OutputUnmatchVirtualNode_Run store0 stream_order unmatch_node0 =
       Some (STATUS_SUCCESS,
             [SetLastError 2 None, SetLastError 1 None,
              PushGraphOutputBuffer 1 [(''In_1'', [data_buffer 1 1])]],
             unmatch_node0_after)
   \<and> routed_cache_map store0 stream_order unmatch_node0 = Some unmatch_node0_routed
   \<and> map fst unmatch_node0_routed = [2, 1, 4]
   \<and> IsAbort (store0 2) \<and> 2 \<notin> fst ` set (session_cache_map unmatch_node0_after)
   \<and> \<not> IsAbort (store0 4) \<and> 4 \<notin> fst ` set (session_cache_map unmatch_node0_after)
   \<and> \<not> IsAbort (store0 1) \<and> 1 \<in> fst ` set (session_cache_map unmatch_node0_after)"
proof -
  have dist: "distinct (map fst (session_cache_map unmatch_node0))"
    by (simp add: unmatch_node0_def)
  note run = unmatch_node0_run
  from OutputUnmatchVirtualNode_Run_erases_ended_or_aborted [OF dist run]
  obtain m where all: "routed_cache_map store0 stream_order unmatch_node0 = Some m
     \<and> fst ` set m = fst ` set (session_cache_map unmatch_node0)
          \<union> {buffer_session b | b.
               (\<exists>q \<in> snd ` set (node_input_ports unmatch_node0). b \<in> set q)
               \<and> \<not> IsAbort (store0 (buffer_session b))}
     \<and> (\<forall>(s, c) \<in> set m.
          (s \<notin> fst ` set (session_cache_map unmatch_node0_after))
            = (AllPortStreamEnd c \<or> IsAbort (store0 s)))
     \<and> (\<forall>(s, c) \<in> set m. \<not> (AllPortStreamEnd c \<or> IsAbort (store0 s)) \<longrightarrow>
          map_of (session_cache_map unmatch_node0_after) s
            = Some (snd (push_session_cache store0 s c))
          \<and> (cast_ExternalDataMapImpl (GetSessionIO (store0 s)) = None \<longrightarrow>
               map_of (session_cache_map unmatch_node0_after) s = Some c))
     \<and> fst ` set (session_cache_map unmatch_node0_after) \<subseteq> fst ` set m"
    by (rule exE)
  note m = all [THEN conjunct1]
  note erased = all [THEN conjunct2, THEN conjunct2, THEN conjunct1]
  from m have m_eq: "m = unmatch_node0_routed"
    by (simp add: unmatch_node0_routed_eq)
  have keys: "map fst unmatch_node0_routed = [2, 1, 4]"
    by (simp add: unmatch_node0_routed_def)
  have ab: "IsAbort (store0 2)" "\<not> IsAbort (store0 4)" "\<not> IsAbort (store0 1)"
    by (simp_all add: example_defs)
  from erased have e: "2 \<notin> fst ` set (session_cache_map unmatch_node0_after)"
    "4 \<notin> fst ` set (session_cache_map unmatch_node0_after)"
    "1 \<in> fst ` set (session_cache_map unmatch_node0_after)"
    unfolding m_eq
    by (simp_all add: unmatch_node0_routed_def AllPortStreamEnd_def
        new_SessionUnmatchCache_def example_defs)
  from m have r: "routed_cache_map store0 stream_order unmatch_node0 = Some unmatch_node0_routed"
    unfolding m_eq .
  show ?thesis
    by (intro conjI dist run r keys ab e)
qed

subsection \<open>Aborted sessions\<close>











lemma Run_settled:
  assumes dist: "distinct (map fst (session_cache_map node))"
    and run: "OutputUnmatchVirtualNode_Run ss stream_less node = Some (st, calls, node')"
  shows "settled ss (session_cache_map node')"
proof -
  from run obtain m where m: "recv_ports ss stream_less (map fst (node_input_ports node))
      (node_input_ports node) (session_cache_map node) = Some m"
    and node': "session_cache_map node' = snd (walk_sessions ss m)"
    by (auto simp: OutputUnmatchVirtualNode_Run_def split: option.splits prod.splits)
  let ?keep = "\<lambda>(s, c). \<not> (AllPortStreamEnd c \<or> IsAbort (ss s))"
  let ?push = "\<lambda>(s, c). (s, snd (push_session_cache ss s c))"
  have m': "session_cache_map node' = map ?push (filter ?keep m)"
    by (simp add: node' walk_sessions_map)
  have dm: "distinct (map fst m)"
    using recv_ports_distinct [OF m dist] .
  have mkeys: "map fst (session_cache_map node') = map fst (filter ?keep m)"
    by (simp add: m' comp_def split_beta)
  have d': "distinct (map fst (session_cache_map node'))"
    unfolding mkeys using dm by (rule distinct_map_filter)
  have "\<forall>(name, ps) \<in> set (port_streams_map c'). ps = []"
    if in': "(s, c') \<in> set (session_cache_map node')"
      and io: "cast_ExternalDataMapImpl (GetSessionIO (ss s)) \<noteq> None" for s c'
  proof -
    from in' obtain c where "c' = snd (push_session_cache ss s c)"
      unfolding m' by auto
    with push_session_cache_io [of ss s c, OF io] show ?thesis by auto
  qed
  with d' show ?thesis
    unfolding settled_def by blast
qed

lemma Run_keeps_distinct:
  assumes "distinct (map fst (session_cache_map node))"
    and "OutputUnmatchVirtualNode_Run ss stream_less node = Some (st, calls, node')"
  shows "distinct (map fst (session_cache_map node'))"
  using Run_settled [OF assms] by (simp add: settled_def)


lemma Run_drains_ports:
  assumes "OutputUnmatchVirtualNode_Run ss stream_less node = Some (st, calls, node')"
  shows "\<forall>(name, q) \<in> set (node_input_ports node'). q = []"
  using assms
  by (auto simp: OutputUnmatchVirtualNode_Run_def split: option.splits prod.splits)


lemma arrive_buffers:
  assumes "(name, q) \<in> set (arrive new ports)" and "b \<in> set q"
  shows "(\<exists>q' \<in> snd ` set ports. b \<in> set q') \<or> (\<exists>q' \<in> snd ` set new. b \<in> set q')"
proof -
  from assms(1) obtain q0 where q0: "(name, q0) \<in> set ports"
    and q: "q = q0 @ lookup_list new name"
    by (auto simp: arrive_def)
  show ?thesis
  proof (cases "b \<in> set q0")
    case True
    with q0 show ?thesis by force
  next
    case False
    with assms(2) q have inl: "b \<in> set (lookup_list new name)" by simp
    then obtain l where "map_of new name = Some l" and "b \<in> set l"
      by (cases "map_of new name") (simp_all add: lookup_list_def)
    then have "(name, l) \<in> set new" and "b \<in> set l"
      by (auto dest: map_of_SomeD)
    then show ?thesis by force
  qed
qed

lemma run_trace_returns:
  "\<forall>e \<in> set steps. \<forall>(name, q) \<in> set (arrived e). \<forall>b \<in> set q. walk_reaches_top b \<Longrightarrow>
   \<forall>(name, q) \<in> set (node_input_ports node). \<forall>b \<in> set q. walk_reaches_top b \<Longrightarrow>
     \<exists>results. run_trace ss stream_less node steps = Some results
        \<and> length results = length steps"
proof (induction steps arbitrary: ss node)
  case Nil
  then show ?case by simp
next
  case (Cons e steps)
  let ?ss = "apply_env ss e"
  let ?node = "node\<lparr>node_input_ports := arrive (arrived e) (node_input_ports node)\<rparr>"
  have "\<forall>(name, q) \<in> set (node_input_ports ?node). \<forall>b \<in> set q. walk_reaches_top b"
  proof (clarify)
    fix name q b
    assume "(name, q) \<in> set (node_input_ports ?node)" and b: "b \<in> set q"
    then have "(name, q) \<in> set (arrive (arrived e) (node_input_ports node))" by simp
    from arrive_buffers [OF this b] Cons.prems show "walk_reaches_top b"
      by fastforce
  qed
  from OutputUnmatchVirtualNode_Run_returns [OF this] obtain calls node' where
    run: "OutputUnmatchVirtualNode_Run ?ss stream_less ?node = Some (STATUS_SUCCESS, calls, node')"
    by blast
  from Run_drains_ports [OF run]
  have "\<forall>(name, q) \<in> set (node_input_ports node'). \<forall>b \<in> set q. walk_reaches_top b"
    by fastforce
  with Cons.IH [of node' ?ss] Cons.prems(1) obtain rest where
    "run_trace ?ss stream_less node' steps = Some rest" "length rest = length steps"
    by auto
  with run show ?case by simp
qed








end
